theory Spec2Isabelle
  imports Main "HOL-Library.Sublist"
begin

section \<open>Company Data Manager: field extractor and sheet store\<close>

text \<open>
  The development follows \<^verbatim>\<open>webSearch.py\<close>. Its logic has two parts: \<^verbatim>\<open>parse_text\<close>
  with \<^verbatim>\<open>extract_optional_field\<close>, which read labelled values out of pasted text with
  regular expressions, and \<^verbatim>\<open>ensure_columns_exist\<close> with \<^verbatim>\<open>add_to_excel\<close>, which keep a
  spreadsheet through pandas data frames.

  A Python \<^verbatim>\<open>str\<close> is modelled as a \<^typ>\<open>string\<close>, one \<^typ>\<open>char\<close> per code point; the
  model therefore ranges over texts whose code points are below 256.
\<close>

subsection \<open>Strings: whitespace and \<^verbatim>\<open>str.strip\<close>\<close>

definition newline :: char where
  "newline = CHR 0x0A"

text \<open>
  \<^verbatim>\<open>str.isspace\<close> on one character. Below 256 the whitespace code points are
  9 to 13, 28 to 32, 133 and 160.
\<close>

definition isspace :: "char \<Rightarrow> bool" where
  "isspace c =
     (let n = (of_char c :: nat)
      in (9 \<le> n \<and> n \<le> 13) \<or> (28 \<le> n \<and> n \<le> 32) \<or> n = 133 \<or> n = 160)"

text \<open>\<^verbatim>\<open>s.strip()\<close>: leading and trailing whitespace removed.\<close>

definition strip :: "string \<Rightarrow> string" where
  "strip s = rev (dropWhile isspace (rev (dropWhile isspace s)))"

subsection \<open>The regular expressions of the extractor\<close>

text \<open>
  Every pattern of the program is a literal followed by the group \<^verbatim>\<open>(.+)\<close>, for example
  \<^verbatim>\<open>r"Company Name: (.+)"\<close>; a pattern is represented by its literal. The flag is
  \<^verbatim>\<open>re.DOTALL\<close>: without it \<^verbatim>\<open>.\<close> matches every character but the newline, with it every
  character.

  \<open>dot_plus\<close> is what the greedy \<^verbatim>\<open>.+\<close> consumes of the text that follows the literal
  (nothing follows the group in a pattern, so it never gives characters back), and
  \<open>match_at\<close> is the attempt to match the pattern at the head of a text: the literal
  has to be there and the group needs one character at least.
\<close>

definition dot_plus :: "bool \<Rightarrow> string \<Rightarrow> string" where
  "dot_plus dotall s = (if dotall then s else takeWhile (\<lambda>c. c \<noteq> newline) s)"

definition match_at :: "bool \<Rightarrow> string \<Rightarrow> string \<Rightarrow> string option" where
  "match_at dotall lit s =
     (if prefix lit s
      then (let g = dot_plus dotall (drop (length lit) s)
            in if g = [] then None else Some g)
      else None)"

text \<open>
  \<^verbatim>\<open>re.search(pattern, text)\<close> followed by \<^verbatim>\<open>.group(1)\<close>: the start positions are tried
  from left to right, the end of the text included, and the first position where the
  pattern matches decides. \<open>None\<close> is Python's \<^verbatim>\<open>None\<close> (no match).
\<close>

fun re_search :: "bool \<Rightarrow> string \<Rightarrow> string \<Rightarrow> string option" where
  "re_search dotall lit [] = match_at dotall lit []"
| "re_search dotall lit (c # cs) =
     (case match_at dotall lit (c # cs) of
        Some g \<Rightarrow> Some g
      | None \<Rightarrow> re_search dotall lit cs)"

subsection \<open>\<^verbatim>\<open>parse_text\<close> and \<^verbatim>\<open>extract_optional_field\<close>\<close>

text \<open>
  \<^verbatim>\<open>parse_text\<close> catches the \<^verbatim>\<open>AttributeError\<close> that \<^verbatim>\<open>None.group(1)\<close> raises, shows a
  dialog and returns \<^verbatim>\<open>None\<close>: the error value \<open>ParseError\<close>.
\<close>

datatype error = ParseError

text \<open>
  The dictionary \<^verbatim>\<open>company_data\<close>, in the order of its keys; a value is a \<^verbatim>\<open>str\<close> or
  \<^verbatim>\<open>None\<close>.
\<close>

type_synonym company_data = "(string \<times> string option) list"

text \<open>\<^verbatim>\<open>match.group(1).strip() if match else None\<close>\<close>

definition extract_optional_field :: "string \<Rightarrow> string \<Rightarrow> string option" where
  "extract_optional_field lit text =
     (case re_search False lit text of
        Some g \<Rightarrow> Some (strip g)
      | None \<Rightarrow> None)"

text \<open>
  \<^verbatim>\<open>re.search(pattern, input_text, flags).group(1).strip()\<close>, the expression of every
  mandatory field: without a match it raises.
\<close>

definition extract_field :: "bool \<Rightarrow> string \<Rightarrow> string \<Rightarrow> error + string" where
  "extract_field dotall lit text =
     (case re_search dotall lit text of
        Some g \<Rightarrow> Inr (strip g)
      | None \<Rightarrow> Inl ParseError)"

text \<open>
  The dictionary literal of \<^verbatim>\<open>parse_text\<close>. Its entries are evaluated in the order of
  the keys; an optional entry never raises and every failure is the same
  \<^verbatim>\<open>AttributeError\<close>, so the result is the error as soon as one mandatory search finds
  no match, and the dictionary otherwise.
\<close>

definition parse_text :: "string \<Rightarrow> error + company_data" where
  "parse_text input_text =
     (case extract_field False ''Company Name: '' input_text of
        Inl e \<Rightarrow> Inl e
      | Inr name \<Rightarrow>
     (case extract_field False ''Company Phone: '' input_text of
        Inl e \<Rightarrow> Inl e
      | Inr phone \<Rightarrow>
     (case extract_field False ''Industry: '' input_text of
        Inl e \<Rightarrow> Inl e
      | Inr industry \<Rightarrow>
     (case extract_field False ''Company Type: '' input_text of
        Inl e \<Rightarrow> Inl e
      | Inr ctype \<Rightarrow>
     (case extract_field False ''Company Country: '' input_text of
        Inl e \<Rightarrow> Inl e
      | Inr country \<Rightarrow>
     (case extract_field True ''Company Operations: '' input_text of
        Inl e \<Rightarrow> Inl e
      | Inr operations \<Rightarrow>
          Inr [(''Company Name'', Some name),
               (''Company Phone'', Some phone),
               (''Company Email'', extract_optional_field ''Company Email: '' input_text),
               (''Industry'', Some industry),
               (''Company Type'', Some ctype),
               (''Import/Export Activities'',
                  extract_optional_field ''Import/Export Activities: '' input_text),
               (''Company Country'', Some country),
               (''Company Website'', extract_optional_field ''Company Website: '' input_text),
               (''Operations'', Some operations)]))))))"

text \<open>
  The patterns of \<^verbatim>\<open>parse_text\<close>, as a table: the key of the dictionary, the
  \<^verbatim>\<open>re.DOTALL\<close> flag and the literal of the pattern. The mandatory fields are those
  read with \<^verbatim>\<open>.group(1)\<close> on the result of the search, the optional ones go through
  \<^verbatim>\<open>extract_optional_field\<close>. \<open>mandatory_labels\<close> are the labels of the mandatory
  patterns, without the colon and the space.
\<close>

definition mandatory_fields :: "(string \<times> bool \<times> string) list" where
  "mandatory_fields =
     [(''Company Name'', False, ''Company Name: ''),
      (''Company Phone'', False, ''Company Phone: ''),
      (''Industry'', False, ''Industry: ''),
      (''Company Type'', False, ''Company Type: ''),
      (''Company Country'', False, ''Company Country: ''),
      (''Operations'', True, ''Company Operations: '')]"

definition optional_fields :: "(string \<times> bool \<times> string) list" where
  "optional_fields =
     [(''Company Email'', False, ''Company Email: ''),
      (''Import/Export Activities'', False, ''Import/Export Activities: ''),
      (''Company Website'', False, ''Company Website: '')]"

definition mandatory_labels :: "string list" where
  "mandatory_labels =
     [''Company Name'', ''Company Phone'', ''Industry'', ''Company Type'',
      ''Company Country'', ''Company Operations'']"

subsection \<open>Labelled lines, in the words of the specification\<close>

text \<open>
  The specification speaks of a line of the form \<^verbatim>\<open><Label>: <value>\<close>. \<open>split_lines\<close>
  cuts a text at its newlines, and \<open>has_labeled_line\<close> holds when one of the lines
  starts with the label, a colon and a space and goes on with a value of one character
  at least.
\<close>

fun split_lines :: "string \<Rightarrow> string list" where
  "split_lines [] = [[]]"
| "split_lines (c # cs) =
     (if c = newline then [] # split_lines cs
      else (case split_lines cs of
              [] \<Rightarrow> [[c]]
            | l # ls \<Rightarrow> (c # l) # ls))"

definition has_labeled_line :: "string \<Rightarrow> string \<Rightarrow> bool" where
  "has_labeled_line label inp =
     list_ex (\<lambda>line. prefix (label @ '': '') line \<and> length (label @ '': '') < length line)
       (split_lines inp)"

section \<open>Sheet store\<close>

subsection \<open>Data frames and the spreadsheet file\<close>

text \<open>
  A cell of a data frame: a missing value (\<^verbatim>\<open>None\<close>, \<^verbatim>\<open>NaN\<close>), a string or a number.
  The program only compares cells with a string, and a number is equal to no string.
\<close>

datatype cell = Null | Str string | Num int

text \<open>
  A pandas \<^verbatim>\<open>DataFrame\<close>: the column labels in order, and the rows in order, each row
  holding one cell per column. \<open>wf_df\<close> is what every frame that pandas builds
  satisfies here: \<^verbatim>\<open>read_excel\<close> makes the column labels unique, and every row has a
  cell for every column.
\<close>

record dataframe =
  columns :: "string list"
  rows :: "cell list list"

definition wf_df :: "dataframe \<Rightarrow> bool" where
  "wf_df df =
     (distinct (columns df) \<and> list_all (\<lambda>r. length r = length (columns df)) (rows df))"

text \<open>The cell of a row under a column label; \<open>Null\<close> when the row has no such column.\<close>

definition cell_at :: "string list \<Rightarrow> cell list \<Rightarrow> string \<Rightarrow> cell" where
  "cell_at cols row c = (case map_of (zip cols row) c of Some v \<Rightarrow> v | None \<Rightarrow> Null)"

text \<open>
  The file system, as far as the program uses it: a path has no file, a file that pandas
  cannot read as a spreadsheet, or a spreadsheet. A spreadsheet is represented by the
  data frame that \<^verbatim>\<open>pd.read_excel\<close> loads from it, so \<^verbatim>\<open>df.to_excel(path, index=False)\<close>
  followed by \<^verbatim>\<open>pd.read_excel(path)\<close> gives \<open>df\<close> back; writing a file succeeds.
\<close>

datatype excel_file = Corrupt | Sheet dataframe

type_synonym fs = "string \<Rightarrow> excel_file option"

datatype excel_error = IOError | KeyError

definition read_excel :: "fs \<Rightarrow> string \<Rightarrow> excel_error + dataframe" where
  "read_excel files path =
     (case files path of
        Some (Sheet df) \<Rightarrow> Inr df
      | _ \<Rightarrow> Inl IOError)"

definition to_excel :: "dataframe \<Rightarrow> fs \<Rightarrow> string \<Rightarrow> fs" where
  "to_excel df files path = files(path \<mapsto> Sheet df)"

subsection \<open>\<^verbatim>\<open>ensure_columns_exist\<close>\<close>

definition required_columns :: "string list" where
  "required_columns =
     [''Company Name'', ''Company Phone'', ''Company Email'',
      ''Industry'', ''Company Type'', ''Import/Export Activities'',
      ''Company Country'', ''Company Website'', ''Operations'']"

text \<open>
  \<^verbatim>\<open>df[column] = None\<close> for a column that \<open>df\<close> does not have, the only use in the
  program: the column is added after the others, with a missing value in every row.
\<close>

definition add_column :: "string \<Rightarrow> dataframe \<Rightarrow> dataframe" where
  "add_column c df =
     \<lparr>columns = columns df @ [c], rows = map (\<lambda>r. r @ [Null]) (rows df)\<rparr>"

text \<open>
  The loop \<^verbatim>\<open>for column in required_columns: if column not in df.columns: ...\<close>
\<close>

fun add_missing_columns :: "string list \<Rightarrow> dataframe \<Rightarrow> dataframe" where
  "add_missing_columns [] df = df"
| "add_missing_columns (column # cs) df =
     add_missing_columns cs
       (if column \<notin> set (columns df) then add_column column df else df)"

text \<open>
  The result is the error shown in the dialog of the \<^verbatim>\<open>except\<close> branch, if any, and the
  file system afterwards. \<^verbatim>\<open>os.path.exists(file_name)\<close> is \<open>files file_name \<noteq> None\<close>,
  and \<^verbatim>\<open>pd.DataFrame(columns=required_columns)\<close> is the frame with these columns and no
  row.
\<close>

definition ensure_columns_exist :: "fs \<Rightarrow> string \<Rightarrow> excel_error option \<times> fs" where
  "ensure_columns_exist files file_name =
     (if files file_name \<noteq> None
      then (case read_excel files file_name of
              Inl e \<Rightarrow> (Some e, files)
            | Inr df \<Rightarrow>
                (None, to_excel (add_missing_columns required_columns df) files file_name))
      else (None, to_excel \<lparr>columns = required_columns, rows = []\<rparr> files file_name))"

subsection \<open>\<^verbatim>\<open>add_to_excel\<close>\<close>

text \<open>\<^verbatim>\<open>df[name]\<close>: the cells of a column, or \<^verbatim>\<open>KeyError\<close>.\<close>

definition getitem :: "dataframe \<Rightarrow> string \<Rightarrow> excel_error + cell list" where
  "getitem df c =
     (if c \<in> set (columns df)
      then Inr (map (\<lambda>r. cell_at (columns df) r c) (rows df))
      else Inl KeyError)"

text \<open>
  \<^verbatim>\<open>series == value\<close> for a value of the dictionary: a cell is equal to a string when
  it holds this very string; nothing is equal to \<^verbatim>\<open>None\<close>.
\<close>

definition cell_eq :: "cell \<Rightarrow> string option \<Rightarrow> bool" where
  "cell_eq c v = (case v of Some s \<Rightarrow> c = Str s | None \<Rightarrow> False)"

definition eq_mask :: "cell list \<Rightarrow> string option \<Rightarrow> bool list" where
  "eq_mask col v = map (\<lambda>c. cell_eq c v) col"

text \<open>\<^verbatim>\<open>df[mask]\<close>: the rows whose entry in the mask is true.\<close>

definition select_rows :: "dataframe \<Rightarrow> bool list \<Rightarrow> dataframe" where
  "select_rows df flags = df\<lparr>rows := map fst (filter snd (zip (rows df) flags))\<rparr>"

text \<open>\<^verbatim>\<open>df.empty\<close>: one of the two axes has length 0.\<close>

definition empty_df :: "dataframe \<Rightarrow> bool" where
  "empty_df df = (columns df = [] \<or> rows df = [])"

definition to_cell :: "string option \<Rightarrow> cell" where
  "to_cell v = (case v of Some s \<Rightarrow> Str s | None \<Rightarrow> Null)"

text \<open>\<^verbatim>\<open>pd.DataFrame([company_data])\<close>: one row, the keys as columns.\<close>

definition from_record :: "company_data \<Rightarrow> dataframe" where
  "from_record company_data =
     \<lparr>columns = map fst company_data, rows = [map (\<lambda>kv. to_cell (snd kv)) company_data]\<rparr>"

text \<open>
  \<^verbatim>\<open>pd.concat([df, new_data], ignore_index=True)\<close>: the columns of \<open>df\<close> followed by
  those of \<open>new_data\<close> that \<open>df\<close> lacks, the rows of both frames laid out over these
  columns, with a missing value where a frame has no such column.
\<close>

definition reindex :: "string list \<Rightarrow> string list \<Rightarrow> cell list \<Rightarrow> cell list" where
  "reindex old cols row = map (cell_at old row) cols"

definition concat_df :: "dataframe \<Rightarrow> dataframe \<Rightarrow> dataframe" where
  "concat_df df new_data =
     (let cols = columns df @ filter (\<lambda>c. c \<notin> set (columns df)) (columns new_data)
      in \<lparr>columns = cols,
          rows = map (reindex (columns df) cols) (rows df)
                 @ map (reindex (columns new_data) cols) (rows new_data)\<rparr>)"

text \<open>
  \<^verbatim>\<open>adjust_excel_format\<close> loads the workbook, sets the alignment of every cell and saves
  it: the values of the cells stay as they are.
\<close>

definition adjust_excel_format :: "fs \<Rightarrow> string \<Rightarrow> excel_error + fs" where
  "adjust_excel_format files file_path =
     (case files file_path of
        Some (Sheet df) \<Rightarrow> Inr files
      | _ \<Rightarrow> Inl IOError)"

text \<open>
  What \<^verbatim>\<open>add_to_excel\<close> does: \<open>Inserted\<close> is the return of \<^verbatim>\<open>True\<close>, \<open>Duplicate\<close> the
  return of \<^verbatim>\<open>False\<close> when a row with the same Company Name is found, \<open>Failed\<close> the
  \<^verbatim>\<open>except\<close> branch, which shows the error and returns \<^verbatim>\<open>False\<close>.
\<close>

datatype outcome = Inserted | Duplicate | Failed

definition add_to_excel :: "fs \<Rightarrow> string \<Rightarrow> company_data \<Rightarrow> outcome \<times> fs" where
  "add_to_excel files selected_excel_file company_data =
     (case read_excel files selected_excel_file of
        Inl e \<Rightarrow> (Failed, files)
      | Inr df \<Rightarrow>
     (case getitem df ''Company Name'' of
        Inl e \<Rightarrow> (Failed, files)
      | Inr col \<Rightarrow>
     (case map_of company_data ''Company Name'' of
        None \<Rightarrow> (Failed, files)
      | Some name \<Rightarrow>
          if \<not> empty_df (select_rows df (eq_mask col name)) then (Duplicate, files)
          else (let new_data = from_record company_data;
                    df' = concat_df df new_data;
                    files' = to_excel df' files selected_excel_file
                in (case adjust_excel_format files' selected_excel_file of
                      Inl e \<Rightarrow> (Failed, files')
                    | Inr files'' \<Rightarrow> (Inserted, files''))))))"

section \<open>Example inputs\<close>

text \<open>
  Input texts on which the theorems below are evaluated. \<open>acme_text\<close> is the input of
  the scenario of the specification.
\<close>

definition acme_text :: string where
  "acme_text = ''Company Name: Acme\<newline>Company Phone: 555-1234\<newline>Industry: Tools\<newline>Company Type: LLC\<newline>Company Country: US\<newline>Company Operations: Makes anvils''"

definition blank_name_text :: string where
  "blank_name_text = ''Company Name:  \<newline>Company Name: Acme\<newline>Company Phone: 555-1234\<newline>Industry: Tools\<newline>Company Type: LLC\<newline>Company Country: US\<newline>Company Operations: Makes anvils''"

definition padded_text :: string where
  "padded_text = ''Company Name: Acme \<newline>Company Phone: 555-1234\<newline>Industry: Tools\<newline>Company Type: LLC\<newline>Company Country: US\<newline>Company Operations: Makes anvils\<newline>and hammers\<newline>''"

definition empty_first_text :: string where
  "empty_first_text = ''Company Name: \<newline>Company Name: Acme\<newline>Company Phone: 555-1234\<newline>Industry: Tools\<newline>Company Type: LLC\<newline>Company Country: US\<newline>Company Operations: Makes anvils''"

definition midline_rest :: string where
  "midline_rest = ''Acme Ltd\<newline>Company Name: Other\<newline>Company Phone: 555-1234\<newline>Industry: Tools\<newline>Company Type: LLC\<newline>Company Country: US\<newline>Company Operations: Makes anvils''"

definition midline_text :: string where
  "midline_text = ''Re: X'' @ ''Company Name: '' @ midline_rest"

text \<open>
  A record as \<open>parse_text\<close> returns it for \<open>acme_text\<close>, the same record under the
  names \<^verbatim>\<open>acme\<close> and \<^verbatim>\<open>Acme\<close> followed by a space, and a spreadsheet with a column of
  its own and one company.
\<close>

definition acme_record :: company_data where
  "acme_record =
     [(''Company Name'', Some ''Acme''),
      (''Company Phone'', Some ''555-1234''),
      (''Company Email'', None),
      (''Industry'', Some ''Tools''),
      (''Company Type'', Some ''LLC''),
      (''Import/Export Activities'', None),
      (''Company Country'', Some ''US''),
      (''Company Website'', None),
      (''Operations'', Some ''Makes anvils'')]"

definition lower_record :: company_data where
  "lower_record = (''Company Name'', Some ''acme'') # tl acme_record"

definition spaced_record :: company_data where
  "spaced_record = (''Company Name'', Some ''Acme '') # tl acme_record"

definition notes_sheet :: dataframe where
  "notes_sheet =
     \<lparr>columns = [''Notes'', ''Company Name''], rows = [[Str ''first'', Str ''Acme'']]\<rparr>"

definition notes_files :: fs where
  "notes_files = Map.empty(''companies.xlsx'' \<mapsto> Sheet notes_sheet)"

section \<open>Properties of the field extractor\<close>

subsection \<open>Where a search matches\<close>

lemma match_at_Some_iff:
  "match_at d lit s = Some g \<longleftrightarrow> (\<exists>rest. s = lit @ rest \<and> g = dot_plus d rest \<and> g \<noteq> [])"
  by (auto simp: match_at_def Let_def prefix_def)

lemma match_at_None_iff:
  "match_at d lit s = None \<longleftrightarrow> (\<forall>rest. s = lit @ rest \<longrightarrow> dot_plus d rest = [])"
  by (auto simp: match_at_def Let_def prefix_def)

text \<open>
  The search returns the group of the leftmost position at which the literal is followed
  by something the group can take.
\<close>

lemma re_search_first:
  "inp = pre @ lit @ rest \<Longrightarrow> dot_plus d rest \<noteq> [] \<Longrightarrow>
   (\<forall>pre' rest'. inp = pre' @ lit @ rest' \<and> length pre' < length pre
      \<longrightarrow> dot_plus d rest' = []) \<Longrightarrow>
   re_search d lit inp = Some (dot_plus d rest)"
proof (induction inp arbitrary: pre)
  case Nil
  then show ?case by (simp add: dot_plus_def split: if_splits)
next
  case (Cons c cs)
  show ?case
  proof (cases pre)
    case Nil
    with Cons.prems(1,2) have "match_at d lit (c # cs) = Some (dot_plus d rest)"
      by (simp add: match_at_Some_iff)
    then show ?thesis by simp
  next
    case (Cons p ps)
    have none: "match_at d lit (c # cs) = None"
      unfolding match_at_None_iff
    proof (intro allI impI)
      fix r assume "c # cs = lit @ r"
      then have "c # cs = [] @ lit @ r \<and> length ([]::string) < length pre"
        using Cons by simp
      with Cons.prems(3) show "dot_plus d r = []" by blast
    qed
    from Cons Cons.prems(1) have cs: "cs = ps @ lit @ rest" by simp
    have "\<forall>pre' rest'. cs = pre' @ lit @ rest' \<and> length pre' < length ps
            \<longrightarrow> dot_plus d rest' = []"
    proof (intro allI impI)
      fix pre' rest' assume a: "cs = pre' @ lit @ rest' \<and> length pre' < length ps"
      then have "c # cs = (c # pre') @ lit @ rest' \<and> length (c # pre') < length pre"
        using Cons by simp
      with Cons.prems(3) show "dot_plus d rest' = []" by blast
    qed
    with Cons.IH[OF cs Cons.prems(2)] have "re_search d lit cs = Some (dot_plus d rest)"
      by blast
    with none show ?thesis by simp
  qed
qed

lemma re_search_SomeD:
  "re_search d lit inp = Some g \<Longrightarrow>
   \<exists>pre rest. inp = pre @ lit @ rest \<and> g = dot_plus d rest \<and> g \<noteq> [] \<and>
     (\<forall>pre' rest'. inp = pre' @ lit @ rest' \<and> length pre' < length pre
        \<longrightarrow> dot_plus d rest' = [])"
proof (induction inp)
  case Nil
  then show ?case by (auto simp: match_at_Some_iff)
next
  case (Cons c cs)
  show ?case
  proof (cases "match_at d lit (c # cs)")
    case (Some g')
    with Cons.prems have "g' = g" by simp
    with Some obtain rest where "c # cs = lit @ rest" "g = dot_plus d rest" "g \<noteq> []"
      by (auto simp: match_at_Some_iff)
    then have "c # cs = [] @ lit @ rest \<and> g = dot_plus d rest \<and> g \<noteq> [] \<and>
      (\<forall>pre' rest'. c # cs = pre' @ lit @ rest' \<and> length pre' < length ([]::string)
         \<longrightarrow> dot_plus d rest' = [])"
      by simp
    then show ?thesis by blast
  next
    case None
    with Cons.prems have "re_search d lit cs = Some g" by simp
    from Cons.IH[OF this] obtain pre rest where
      h: "cs = pre @ lit @ rest" "g = dot_plus d rest" "g \<noteq> []"
         "\<forall>pre' rest'. cs = pre' @ lit @ rest' \<and> length pre' < length pre
            \<longrightarrow> dot_plus d rest' = []"
      by blast
    have "\<forall>pre' rest'. c # cs = pre' @ lit @ rest' \<and> length pre' < length (c # pre)
            \<longrightarrow> dot_plus d rest' = []"
    proof (intro allI impI)
      fix pre' rest'
      assume a: "c # cs = pre' @ lit @ rest' \<and> length pre' < length (c # pre)"
      show "dot_plus d rest' = []"
      proof (cases pre')
        case Nil
        with a None show ?thesis by (simp add: match_at_None_iff)
      next
        case (Cons q qs)
        with a have "cs = qs @ lit @ rest' \<and> length qs < length pre" by simp
        with h(4) show ?thesis by blast
      qed
    qed
    with h have "c # cs = (c # pre) @ lit @ rest \<and> g = dot_plus d rest \<and> g \<noteq> [] \<and>
      (\<forall>pre' rest'. c # cs = pre' @ lit @ rest' \<and> length pre' < length (c # pre)
         \<longrightarrow> dot_plus d rest' = [])"
      by simp
    then show ?thesis by blast
  qed
qed

lemma re_search_None_iff:
  "re_search d lit inp = None \<longleftrightarrow>
   (\<forall>pre rest. inp = pre @ lit @ rest \<longrightarrow> dot_plus d rest = [])"
proof (induction inp)
  case Nil
  then show ?case by (auto simp: match_at_None_iff)
next
  case (Cons c cs)
  show ?case
  proof
    assume a: "re_search d lit (c # cs) = None"
    then have m: "match_at d lit (c # cs) = None" and r: "re_search d lit cs = None"
      by (auto split: option.splits)
    show "\<forall>pre rest. c # cs = pre @ lit @ rest \<longrightarrow> dot_plus d rest = []"
    proof (intro allI impI)
      fix pre rest assume e: "c # cs = pre @ lit @ rest"
      show "dot_plus d rest = []"
      proof (cases pre)
        case Nil
        with e m show ?thesis by (simp add: match_at_None_iff)
      next
        case (Cons q qs)
        with e have "cs = qs @ lit @ rest" by simp
        with r Cons.IH show ?thesis by blast
      qed
    qed
  next
    assume a: "\<forall>pre rest. c # cs = pre @ lit @ rest \<longrightarrow> dot_plus d rest = []"
    have m: "match_at d lit (c # cs) = None"
      unfolding match_at_None_iff
    proof (intro allI impI)
      fix r assume "c # cs = lit @ r"
      then have "c # cs = [] @ lit @ r" by simp
      with a show "dot_plus d r = []" by blast
    qed
    have "\<forall>pre rest. cs = pre @ lit @ rest \<longrightarrow> dot_plus d rest = []"
    proof (intro allI impI)
      fix pre rest assume "cs = pre @ lit @ rest"
      then have "c # cs = (c # pre) @ lit @ rest" by simp
      with a show "dot_plus d rest = []" by blast
    qed
    with Cons.IH have "re_search d lit cs = None" by blast
    with m show "re_search d lit (c # cs) = None" by simp
  qed
qed

lemma re_search_no_occurrence:
  "\<not> sublist lit inp \<Longrightarrow> re_search d lit inp = None"
  unfolding re_search_None_iff sublist_def by blast

lemma extract_field_absent:
  "\<not> sublist l inp \<Longrightarrow> extract_field d (l @ z) inp = Inl ParseError"
proof -
  assume "\<not> sublist l inp"
  then have "\<not> sublist (l @ z) inp"
    unfolding sublist_def by (metis append.assoc)
  then show ?thesis
    by (simp add: extract_field_def re_search_no_occurrence)
qed

subsection \<open>Failure of \<^verbatim>\<open>parse_text\<close>\<close>

lemma error_is_ParseError: "((e::error) = ParseError) = True"
  by (cases e) simp

lemma parse_text_fails_name:
  "extract_field False ''Company Name: '' inp = Inl ParseError \<Longrightarrow> parse_text inp = Inl ParseError"
  unfolding parse_text_def by simp

lemma parse_text_fails_phone:
  "extract_field False ''Company Phone: '' inp = Inl ParseError \<Longrightarrow> parse_text inp = Inl ParseError"
  unfolding parse_text_def by (simp add: error_is_ParseError split: sum.splits)

lemma parse_text_fails_industry:
  "extract_field False ''Industry: '' inp = Inl ParseError \<Longrightarrow> parse_text inp = Inl ParseError"
  unfolding parse_text_def by (simp add: error_is_ParseError split: sum.splits)

lemma parse_text_fails_type:
  "extract_field False ''Company Type: '' inp = Inl ParseError \<Longrightarrow> parse_text inp = Inl ParseError"
  unfolding parse_text_def by (simp add: error_is_ParseError split: sum.splits)

lemma parse_text_fails_country:
  "extract_field False ''Company Country: '' inp = Inl ParseError \<Longrightarrow> parse_text inp = Inl ParseError"
  unfolding parse_text_def by (simp add: error_is_ParseError split: sum.splits)

lemma parse_text_fails_operations:
  "extract_field True ''Company Operations: '' inp = Inl ParseError \<Longrightarrow> parse_text inp = Inl ParseError"
  unfolding parse_text_def by (simp add: error_is_ParseError split: sum.splits)

lemma absent_name: "\<not> sublist ''Company Name'' inp \<Longrightarrow> parse_text inp = Inl ParseError"
  using extract_field_absent[of "''Company Name''" inp False "'': ''"]
  by (simp add: parse_text_fails_name)

lemma absent_phone: "\<not> sublist ''Company Phone'' inp \<Longrightarrow> parse_text inp = Inl ParseError"
  using extract_field_absent[of "''Company Phone''" inp False "'': ''"]
  by (simp add: parse_text_fails_phone)

lemma absent_industry: "\<not> sublist ''Industry'' inp \<Longrightarrow> parse_text inp = Inl ParseError"
  using extract_field_absent[of "''Industry''" inp False "'': ''"]
  by (simp add: parse_text_fails_industry)

lemma absent_type: "\<not> sublist ''Company Type'' inp \<Longrightarrow> parse_text inp = Inl ParseError"
  using extract_field_absent[of "''Company Type''" inp False "'': ''"]
  by (simp add: parse_text_fails_type)

lemma absent_country: "\<not> sublist ''Company Country'' inp \<Longrightarrow> parse_text inp = Inl ParseError"
  using extract_field_absent[of "''Company Country''" inp False "'': ''"]
  by (simp add: parse_text_fails_country)

lemma absent_operations:
  "\<not> sublist ''Company Operations'' inp \<Longrightarrow> parse_text inp = Inl ParseError"
  using extract_field_absent[of "''Company Operations''" inp True "'': ''"]
  by (simp add: parse_text_fails_operations)

lemma all_absent:
  "\<forall>l \<in> set mandatory_labels. \<not> sublist l inp \<longrightarrow> parse_text inp = Inl ParseError"
  unfolding mandatory_labels_def
  using absent_name[of inp] absent_phone[of inp] absent_industry[of inp]
    absent_type[of inp] absent_country[of inp] absent_operations[of inp]
  by simp blast

subsection \<open>Success of \<^verbatim>\<open>parse_text\<close>\<close>

lemma parse_text_success:
  assumes "re_search False ''Company Name: '' inp = Some gn"
    and "re_search False ''Company Phone: '' inp = Some gp"
    and "re_search False ''Industry: '' inp = Some gi"
    and "re_search False ''Company Type: '' inp = Some gt"
    and "re_search False ''Company Country: '' inp = Some gc"
    and "re_search True ''Company Operations: '' inp = Some go"
  shows "parse_text inp =
     Inr [(''Company Name'', Some (strip gn)),
          (''Company Phone'', Some (strip gp)),
          (''Company Email'', extract_optional_field ''Company Email: '' inp),
          (''Industry'', Some (strip gi)),
          (''Company Type'', Some (strip gt)),
          (''Import/Export Activities'',
             extract_optional_field ''Import/Export Activities: '' inp),
          (''Company Country'', Some (strip gc)),
          (''Company Website'', extract_optional_field ''Company Website: '' inp),
          (''Operations'', Some (strip go))]"
  using assms unfolding parse_text_def extract_field_def by simp

lemma extract_field_None:
  "re_search d lit inp = None \<Longrightarrow> extract_field d lit inp = Inl ParseError"
  by (simp add: extract_field_def)

lemma parse_text_InrD:
  assumes "parse_text inp = Inr r"
  shows "\<exists>gn gp gi gt gc go.
     re_search False ''Company Name: '' inp = Some gn \<and>
     re_search False ''Company Phone: '' inp = Some gp \<and>
     re_search False ''Industry: '' inp = Some gi \<and>
     re_search False ''Company Type: '' inp = Some gt \<and>
     re_search False ''Company Country: '' inp = Some gc \<and>
     re_search True ''Company Operations: '' inp = Some go \<and>
     r = [(''Company Name'', Some (strip gn)),
          (''Company Phone'', Some (strip gp)),
          (''Company Email'', extract_optional_field ''Company Email: '' inp),
          (''Industry'', Some (strip gi)),
          (''Company Type'', Some (strip gt)),
          (''Import/Export Activities'',
             extract_optional_field ''Import/Export Activities: '' inp),
          (''Company Country'', Some (strip gc)),
          (''Company Website'', extract_optional_field ''Company Website: '' inp),
          (''Operations'', Some (strip go))]"
proof -
  have ok: "parse_text inp \<noteq> Inl ParseError" using assms by simp
  obtain gn where gn: "re_search False ''Company Name: '' inp = Some gn"
    using ok parse_text_fails_name[OF extract_field_None] by (cases "re_search False ''Company Name: '' inp") auto
  obtain gp where gp: "re_search False ''Company Phone: '' inp = Some gp"
    using ok parse_text_fails_phone[OF extract_field_None] by (cases "re_search False ''Company Phone: '' inp") auto
  obtain gi where gi: "re_search False ''Industry: '' inp = Some gi"
    using ok parse_text_fails_industry[OF extract_field_None] by (cases "re_search False ''Industry: '' inp") auto
  obtain gt where gt: "re_search False ''Company Type: '' inp = Some gt"
    using ok parse_text_fails_type[OF extract_field_None] by (cases "re_search False ''Company Type: '' inp") auto
  obtain gc where gc: "re_search False ''Company Country: '' inp = Some gc"
    using ok parse_text_fails_country[OF extract_field_None] by (cases "re_search False ''Company Country: '' inp") auto
  obtain go where go: "re_search True ''Company Operations: '' inp = Some go"
    using ok parse_text_fails_operations[OF extract_field_None] by (cases "re_search True ''Company Operations: '' inp") auto
  from parse_text_success[OF gn gp gi gt gc go] assms gn gp gi gt gc go
  show ?thesis by simp
qed

lemma parse_text_mandatory:
  assumes "parse_text inp = Inr r"
  shows "\<forall>(k, d, lit) \<in> set mandatory_fields.
           \<exists>g. re_search d lit inp = Some g \<and> map_of r k = Some (Some (strip g))"
proof -
  from parse_text_InrD[OF assms] obtain gn gp gi gt gc go where
     h: "re_search False ''Company Name: '' inp = Some gn"
     "re_search False ''Company Phone: '' inp = Some gp"
     "re_search False ''Industry: '' inp = Some gi"
     "re_search False ''Company Type: '' inp = Some gt"
     "re_search False ''Company Country: '' inp = Some gc"
     "re_search True ''Company Operations: '' inp = Some go"
     "r = [(''Company Name'', Some (strip gn)),
          (''Company Phone'', Some (strip gp)),
          (''Company Email'', extract_optional_field ''Company Email: '' inp),
          (''Industry'', Some (strip gi)),
          (''Company Type'', Some (strip gt)),
          (''Import/Export Activities'',
             extract_optional_field ''Import/Export Activities: '' inp),
          (''Company Country'', Some (strip gc)),
          (''Company Website'', extract_optional_field ''Company Website: '' inp),
          (''Operations'', Some (strip go))]"
    by blast
  show ?thesis unfolding mandatory_fields_def using h by simp
qed

lemma parse_text_optional:
  assumes "parse_text inp = Inr r"
  shows "\<forall>(k, d, lit) \<in> set optional_fields.
           d = False \<and> map_of r k = Some (extract_optional_field lit inp)"
proof -
  from parse_text_InrD[OF assms] obtain gn gp gi gt gc go where
     h: "r = [(''Company Name'', Some (strip gn)),
          (''Company Phone'', Some (strip gp)),
          (''Company Email'', extract_optional_field ''Company Email: '' inp),
          (''Industry'', Some (strip gi)),
          (''Company Type'', Some (strip gt)),
          (''Import/Export Activities'',
             extract_optional_field ''Import/Export Activities: '' inp),
          (''Company Country'', Some (strip gc)),
          (''Company Website'', extract_optional_field ''Company Website: '' inp),
          (''Operations'', Some (strip go))]"
    by blast
  show ?thesis unfolding optional_fields_def using h by simp
qed

lemma strip_nonempty_iff: "strip g \<noteq> [] \<longleftrightarrow> (\<exists>c \<in> set g. \<not> isspace c)"
proof
  assume "strip g \<noteq> []"
  then have "dropWhile isspace g \<noteq> []"
    by (auto simp: strip_def dest: set_dropWhileD)
  then show "\<exists>c \<in> set g. \<not> isspace c"
    by (meson dropWhile_eq_Nil_conv)
next
  assume "\<exists>c \<in> set g. \<not> isspace c"
  then have ne: "dropWhile isspace g \<noteq> []" by auto
  then have "\<not> isspace (hd (dropWhile isspace g))" by (rule hd_dropWhile)
  moreover have "hd (dropWhile isspace g) \<in> set (rev (dropWhile isspace g))"
    using ne by simp
  ultimately have "dropWhile isspace (rev (dropWhile isspace g)) \<noteq> []"
    by auto
  then show "strip g \<noteq> []" by (simp add: strip_def)
qed

lemma dot_plus_line:
  assumes "dot_plus False rest = v"
  shows "\<exists>post. rest = v @ post \<and> newline \<notin> set v \<and> (post = [] \<or> (\<exists>p. post = newline # p))"
proof -
  let ?post = "dropWhile (\<lambda>c. c \<noteq> newline) rest"
  have v: "v = takeWhile (\<lambda>c. c \<noteq> newline) rest" using assms by (simp add: dot_plus_def)
  have "rest = v @ ?post" by (simp add: v)
  moreover have "newline \<notin> set v" using v by (auto dest: set_takeWhileD)
  moreover have "?post = [] \<or> (\<exists>p. ?post = newline # p)"
  proof (cases ?post)
    case Nil then show ?thesis by simp
  next
    case (Cons a p)
    then have "?post \<noteq> []" by simp
    from hd_dropWhile[OF this] Cons have "a = newline" by simp
    with Cons show ?thesis by simp
  qed
  ultimately show ?thesis by blast
qed

lemma split_lines_nonempty: "split_lines inp \<noteq> []"
  by (induction inp) (auto split: list.splits)

lemma split_lines_parts:
  "(\<exists>l ls post. split_lines inp = l # ls \<and> inp = l @ post \<and> newline \<notin> set l) \<and>
   (\<forall>line \<in> set (split_lines inp). (\<exists>pre post. inp = pre @ line @ post) \<and> newline \<notin> set line)"
proof (induction inp)
  case Nil
  then show ?case by simp
next
  case (Cons c cs)
  from Cons obtain l ls post where
    h: "split_lines cs = l # ls" "cs = l @ post" "newline \<notin> set l" by blast
  from Cons have all: "\<And>line. line \<in> set (split_lines cs) \<Longrightarrow>
      (\<exists>pre post. cs = pre @ line @ post) \<and> newline \<notin> set line" by blast
  show ?case
  proof (cases "c = newline")
    case True
    have sl: "split_lines (c # cs) = [] # split_lines cs" using True by simp
    have a: "\<exists>l ls post. split_lines (c # cs) = l # ls \<and> c # cs = l @ post \<and> newline \<notin> set l"
      using sl by simp
    have b: "\<forall>line \<in> set (split_lines (c # cs)).
               (\<exists>pre post. c # cs = pre @ line @ post) \<and> newline \<notin> set line"
    proof
      fix line assume "line \<in> set (split_lines (c # cs))"
      then consider "line = []" | "line \<in> set (split_lines cs)" using sl by auto
      then show "(\<exists>pre post. c # cs = pre @ line @ post) \<and> newline \<notin> set line"
      proof cases
        case 1
        have "c # cs = [] @ [] @ (c # cs)" by simp
        then have "\<exists>pre post. c # cs = pre @ [] @ post" by blast
        with 1 show ?thesis by simp
      next
        case 2
        with all obtain pre post where "cs = pre @ line @ post" and n: "newline \<notin> set line"
          by blast
        then have "c # cs = (c # pre) @ line @ post" by simp
        then have "\<exists>pre post. c # cs = pre @ line @ post" by blast
        with n show ?thesis by simp
      qed
    qed
    from a b show ?thesis by blast
  next
    case False
    have sl: "split_lines (c # cs) = (c # l) # ls" using False h(1) by simp
    have first: "c # cs = (c # l) @ post" using h by simp
    have nl: "newline \<notin> set (c # l)" using False h(3) by auto
    have a: "\<exists>l ls post. split_lines (c # cs) = l # ls \<and> c # cs = l @ post \<and> newline \<notin> set l"
      using sl first nl by blast
    have b: "\<forall>line \<in> set (split_lines (c # cs)).
               (\<exists>pre post. c # cs = pre @ line @ post) \<and> newline \<notin> set line"
    proof
      fix line assume "line \<in> set (split_lines (c # cs))"
      then consider "line = c # l" | "line \<in> set ls" using sl by auto
      then show "(\<exists>pre post. c # cs = pre @ line @ post) \<and> newline \<notin> set line"
      proof cases
        case 1
        have "c # cs = [] @ (c # l) @ post" using first by simp
        then have "\<exists>pre post. c # cs = pre @ (c # l) @ post" by blast
        with 1 nl show ?thesis by simp
      next
        case 2
        then have "line \<in> set (split_lines cs)" using h(1) by simp
        with all obtain pre post where "cs = pre @ line @ post" and n: "newline \<notin> set line"
          by blast
        then have "c # cs = (c # pre) @ line @ post" by simp
        then have "\<exists>pre post. c # cs = pre @ line @ post" by blast
        with n show ?thesis by simp
      qed
    qed
    from a b show ?thesis by blast
  qed
qed

lemma labeled_line_search:
  assumes "has_labeled_line label inp"
  shows "re_search d (label @ '': '') inp \<noteq> None"
proof -
  let ?lit = "label @ '': ''"
  from assms obtain line where l: "line \<in> set (split_lines inp)" "prefix ?lit line"
      "length ?lit < length line"
    unfolding has_labeled_line_def list_ex_iff by blast
  from l(2,3) obtain v where v: "line = ?lit @ v" "v \<noteq> []"
    by (auto simp: prefix_def)
  from split_lines_parts l(1) obtain pre post where
    p: "inp = pre @ line @ post" "newline \<notin> set line" by blast
  from v obtain a w where w: "v = a # w" by (cases v) auto
  with p(2) v(1) have "a \<noteq> newline" by auto
  then have "dot_plus d (v @ post) \<noteq> []" using w by (simp add: dot_plus_def)
  moreover have "inp = pre @ ?lit @ (v @ post)" using p(1) v(1) by simp
  ultimately show ?thesis unfolding re_search_None_iff by blast
qed

subsection \<open>Labelled lines, captured values, earlier positions\<close>

lemma labeled_lines_search:
  assumes "\<forall>l \<in> set mandatory_labels. has_labeled_line l inp"
  shows "\<forall>(k, d, lit) \<in> set mandatory_fields. re_search d lit inp \<noteq> None"
proof -
  from assms have
    h: "has_labeled_line ''Company Name'' inp" "has_labeled_line ''Company Phone'' inp"
    "has_labeled_line ''Industry'' inp" "has_labeled_line ''Company Type'' inp"
    "has_labeled_line ''Company Country'' inp" "has_labeled_line ''Company Operations'' inp"
    by (simp_all add: mandatory_labels_def)
  have "re_search False ''Company Name: '' inp \<noteq> None"
    using labeled_line_search[OF h(1), of False] by simp
  moreover have "re_search False ''Company Phone: '' inp \<noteq> None"
    using labeled_line_search[OF h(2), of False] by simp
  moreover have "re_search False ''Industry: '' inp \<noteq> None"
    using labeled_line_search[OF h(3), of False] by simp
  moreover have "re_search False ''Company Type: '' inp \<noteq> None"
    using labeled_line_search[OF h(4), of False] by simp
  moreover have "re_search False ''Company Country: '' inp \<noteq> None"
    using labeled_line_search[OF h(5), of False] by simp
  moreover have "re_search True ''Company Operations: '' inp \<noteq> None"
    using labeled_line_search[OF h(6), of True] by simp
  ultimately show ?thesis by (simp add: mandatory_fields_def)
qed

lemma re_search_value:
  assumes "re_search d lit inp = Some g"
  shows "\<exists>pre post. inp = pre @ lit @ g @ post \<and> g \<noteq> [] \<and>
     (if d then post = []
      else newline \<notin> set g \<and> (post = [] \<or> (\<exists>p. post = newline # p)))"
proof -
  from re_search_SomeD[OF assms] obtain pre rest where
    h: "inp = pre @ lit @ rest" "g = dot_plus d rest" "g \<noteq> []" by blast
  show ?thesis
  proof (cases d)
    case True
    from h(1,2) True have "inp = pre @ lit @ g @ []" by (simp add: dot_plus_def)
    then have "inp = pre @ lit @ g @ [] \<and> g \<noteq> [] \<and>
     (if d then ([]::string) = []
      else newline \<notin> set g \<and> (([]::string) = [] \<or> (\<exists>p. ([]::string) = newline # p)))"
      using True h(3) by simp
    then show ?thesis by (rule_tac x = pre in exI, rule_tac x = "[]" in exI)
  next
    case False
    with h(2) have "dot_plus False rest = g" by simp
    from dot_plus_line[OF this] obtain post where
      p: "rest = g @ post" "newline \<notin> set g" "post = [] \<or> (\<exists>p. post = newline # p)"
      by blast
    from h(1) p(1) have "inp = pre @ lit @ g @ post" by simp
    then have "inp = pre @ lit @ g @ post \<and> g \<noteq> [] \<and>
     (if d then post = []
      else newline \<notin> set g \<and> (post = [] \<or> (\<exists>p. post = newline # p)))"
      using False h(3) p(2,3) by simp
    then show ?thesis by (rule_tac x = pre in exI, rule_tac x = post in exI)
  qed
qed

lemma earlier_positions:
  assumes "\<forall>n < length pre. match_at d lit (drop n inp) = None"
  shows "\<forall>pre' rest'. inp = pre' @ lit @ rest' \<and> length pre' < length pre
           \<longrightarrow> dot_plus d rest' = []"
proof (intro allI impI)
  fix pre' rest' assume a: "inp = pre' @ lit @ rest' \<and> length pre' < length pre"
  then have e: "inp = pre' @ lit @ rest'" and l: "length pre' < length pre" by simp_all
  have "drop (length pre') inp = lit @ rest'" unfolding e by simp
  moreover from l assms have "match_at d lit (drop (length pre') inp) = None" by blast
  ultimately show "dot_plus d rest' = []" by (simp add: match_at_None_iff)
qed

section \<open>Properties of the sheet store\<close>

subsection \<open>Adding the missing columns\<close>

lemma add_missing_columns_eq:
  "distinct cs \<Longrightarrow>
   add_missing_columns cs df =
     \<lparr>columns = columns df @ filter (\<lambda>c. c \<notin> set (columns df)) cs,
      rows = map (\<lambda>r. r @ replicate (length (filter (\<lambda>c. c \<notin> set (columns df)) cs)) Null)
               (rows df)\<rparr>"
proof (induction cs arbitrary: df)
  case Nil
  then show ?case by simp
next
  case (Cons c cs)
  then have d: "distinct cs" and n: "c \<notin> set cs" by simp_all
  show ?case
  proof (cases "c \<in> set (columns df)")
    case True
    then show ?thesis using Cons.IH[OF d, of df] by simp
  next
    case False
    have f: "filter (\<lambda>x. x \<noteq> c \<and> x \<notin> set (columns df)) cs
             = filter (\<lambda>x. x \<notin> set (columns df)) cs"
      using n by (intro filter_cong) auto
    show ?thesis
      using False Cons.IH[OF d, of "add_column c df"]
      by (simp add: add_column_def f replicate_append_same o_def)
  qed
qed

lemma columns_grow:
  "set (columns df) \<subseteq> set (columns (add_missing_columns cs df))"
proof (induction cs arbitrary: df)
  case Nil
  then show ?case by simp
next
  case (Cons c cs)
  have "set (columns df) \<subseteq> set (columns (if c \<notin> set (columns df) then add_column c df else df))"
    by (auto simp: add_column_def)
  also have "\<dots> \<subseteq> set (columns (add_missing_columns (c # cs) df))"
    using Cons.IH by simp
  finally show ?case .
qed

lemma required_present:
  "set cs \<subseteq> set (columns (add_missing_columns cs df))"
proof (induction cs arbitrary: df)
  case Nil
  then show ?case by simp
next
  case (Cons c cs)
  let ?df = "if c \<notin> set (columns df) then add_column c df else df"
  have "c \<in> set (columns ?df)" by (simp add: add_column_def)
  then have "c \<in> set (columns (add_missing_columns cs ?df))"
    using columns_grow by blast
  moreover have "set cs \<subseteq> set (columns (add_missing_columns cs ?df))"
    using Cons.IH by blast
  ultimately show ?case by simp
qed

lemma add_missing_noop:
  "set cs \<subseteq> set (columns df) \<Longrightarrow> add_missing_columns cs df = df"
  by (induction cs arbitrary: df) auto

lemma distinct_required_columns: "distinct required_columns"
  by (simp add: required_columns_def)

lemma ensure_missing:
  "files p = None \<Longrightarrow>
   ensure_columns_exist files p
     = (None, files(p \<mapsto> Sheet \<lparr>columns = required_columns, rows = []\<rparr>))"
  by (simp add: ensure_columns_exist_def to_excel_def)

lemma ensure_corrupt:
  "files p = Some Corrupt \<Longrightarrow> ensure_columns_exist files p = (Some IOError, files)"
  by (simp add: ensure_columns_exist_def read_excel_def)

lemma ensure_sheet:
  "files p = Some (Sheet df) \<Longrightarrow>
   ensure_columns_exist files p
     = (None, files(p \<mapsto> Sheet (add_missing_columns required_columns df)))"
  by (simp add: ensure_columns_exist_def read_excel_def to_excel_def)

lemma cell_at_padded:
  assumes "distinct cols" and "length row = length cols"
  shows "cell_at (cols @ new) (row @ replicate k Null) c
           = (if c \<in> set cols then cell_at cols row c else Null)"
proof -
  have z: "zip (cols @ new) (row @ replicate k Null)
             = zip cols row @ zip new (replicate k Null)"
    using assms(2) by simp
  show ?thesis
  proof (cases "c \<in> set cols")
    case True
    have "map fst (zip cols row) = cols"
      using assms(2) by simp
    then have "fst ` set (zip cols row) = set cols"
      by (metis set_map)
    with True have "c \<in> fst ` set (zip cols row)" by simp
    then obtain v where v: "map_of (zip cols row) c = Some v"
      by (metis domD dom_map_of_conv_image_fst)
    then have "map_of (zip cols row @ zip new (replicate k Null)) c = Some v"
      by (simp add: map_add_Some_iff)
    with v True show ?thesis by (simp add: cell_at_def z)
  next
    case False
    then have n: "map_of (zip cols row) c = None"
      by (meson map_of_SomeD not_Some_eq set_zip_leftD)
    have "map_of (zip new (replicate k Null)) c = None
          \<or> map_of (zip new (replicate k Null)) c = Some Null"
    proof (cases "map_of (zip new (replicate k Null)) c")
      case None
      then show ?thesis by simp
    next
      case (Some v)
      then have "(c, v) \<in> set (zip new (replicate k Null))" by (rule map_of_SomeD)
      then have "v \<in> set (replicate k Null)" by (rule set_zip_rightD)
      then have "v = Null" by simp
      with Some show ?thesis by simp
    qed
    with n False show ?thesis by (auto simp: cell_at_def z map_add_def)
  qed
qed

subsection \<open>Looking for the company and appending the row\<close>

lemma filter_by_flags: "map fst (filter snd (zip xs (map P xs))) = filter P xs"
  by (induction xs) auto

lemma select_rows_eq:
  "rows (select_rows df (eq_mask (map f (rows df)) v))
     = filter (\<lambda>r. cell_eq (f r) v) (rows df)"
  using filter_by_flags[of "rows df" "\<lambda>r. cell_eq (f r) v"]
  by (simp add: select_rows_def eq_mask_def o_def)

lemma adjust_after_write:
  "adjust_excel_format (to_excel df files p) p = Inr (to_excel df files p)"
  by (simp add: adjust_excel_format_def to_excel_def)

lemma add_to_excel_sheet:
  assumes "files p = Some (Sheet df)" and "''Company Name'' \<in> set (columns df)"
    and "map_of cd ''Company Name'' = Some v"
  shows "add_to_excel files p cd =
     (if \<exists>r \<in> set (rows df). cell_eq (cell_at (columns df) r ''Company Name'') v
      then (Duplicate, files)
      else (Inserted, files(p \<mapsto> Sheet (concat_df df (from_record cd)))))"
proof -
  have r: "read_excel files p = Inr df" using assms(1) by (simp add: read_excel_def)
  have g: "getitem df ''Company Name''
           = Inr (map (\<lambda>r. cell_at (columns df) r ''Company Name'') (rows df))"
    using assms(2) by (simp add: getitem_def)
  have c: "columns df \<noteq> []" using assms(2) by auto
  have e: "empty_df (select_rows df
              (eq_mask (map (\<lambda>r. cell_at (columns df) r ''Company Name'') (rows df)) v))
           \<longleftrightarrow> \<not> (\<exists>r \<in> set (rows df). cell_eq (cell_at (columns df) r ''Company Name'') v)"
    using c select_rows_eq[of df "\<lambda>r. cell_at (columns df) r ''Company Name''" v]
    by (simp add: empty_df_def select_rows_def filter_empty_conv)
  show ?thesis
    using e r g assms(3)
    by (simp add: add_to_excel_def adjust_after_write Let_def) (simp add: to_excel_def)
qed

lemma cell_at_present: "cell_at cols row c \<noteq> Null \<Longrightarrow> c \<in> set cols"
  by (auto simp: cell_at_def split: option.splits dest!: map_of_SomeD set_zip_leftD)

lemma cell_eq_Some: "cell_eq c (Some s) \<longleftrightarrow> c = Str s"
  by (simp add: cell_eq_def)







lemma add_to_excel_found:
  assumes "files p = Some (Sheet df)" and "''Company Name'' \<in> set (columns df)"
    and "map_of cd ''Company Name'' = Some (Some name)"
    and "\<exists>row \<in> set (rows df). cell_at (columns df) row ''Company Name'' = Str name"
  shows "add_to_excel files p cd = (Duplicate, files)"
proof -
  have "add_to_excel files p cd =
     (if \<exists>r \<in> set (rows df). cell_eq (cell_at (columns df) r ''Company Name'') (Some name)
      then (Duplicate, files)
      else (Inserted, files(p \<mapsto> Sheet (concat_df df (from_record cd)))))"
    using assms(1,2,3) by (rule add_to_excel_sheet)
  then show ?thesis using assms(4) by (simp only: cell_eq_Some if_True)
qed


section \<open>Claims about the field extractor\<close>

text \<open>
  Claim C2. When one of the six mandatory labels (Company Name, Company Phone, Industry,
  Company Type, Company Country, Company Operations) occurs nowhere in the input text,
  \<open>parse_text\<close> fails with \<open>ParseError\<close>.
\<close>

theorem parse_text_missing_label:
  assumes "l \<in> set mandatory_labels" and "\<not> sublist l inp"
  shows "parse_text inp = Inl ParseError"
  using all_absent assms by blast

theorem parse_text_missing_label_witness:
  "''Industry'' \<in> set mandatory_labels
   \<and> \<not> sublist ''Industry''
        ''Company Name: Acme\<newline>Company Phone: 555-1234\<newline>Company Type: LLC\<newline>Company Country: US\<newline>Company Operations: Makes anvils''
   \<and> parse_text
        ''Company Name: Acme\<newline>Company Phone: 555-1234\<newline>Company Type: LLC\<newline>Company Country: US\<newline>Company Operations: Makes anvils''
      = Inl ParseError"
proof -
  have h1: "''Industry'' \<in> set mandatory_labels"
    by (simp add: mandatory_labels_def)
  have h2: "\<not> sublist ''Industry''
        ''Company Name: Acme\<newline>Company Phone: 555-1234\<newline>Company Type: LLC\<newline>Company Country: US\<newline>Company Operations: Makes anvils''"
    by code_simp
  from parse_text_missing_label[OF h1 h2] h1 h2 show ?thesis by blast
qed


text \<open>
  Claim C1, as stated: for every input text that contains all six mandatory labelled
  lines, \<open>parse_text\<close> returns a record in which every mandatory field, Company Name
  included, is a non-empty string. \<open>blank_name_text\<close> contains the six labelled lines,
  and a line \<^verbatim>\<open>Company Name:\<close> with two spaces before them: the search takes the first
  line, the captured blanks are stripped, and Company Name is the empty string.
\<close>

theorem parse_text_empty_name_counterexample:
  "has_labeled_line ''Company Name'' blank_name_text
   \<and> has_labeled_line ''Company Phone'' blank_name_text
   \<and> has_labeled_line ''Industry'' blank_name_text
   \<and> has_labeled_line ''Company Type'' blank_name_text
   \<and> has_labeled_line ''Company Country'' blank_name_text
   \<and> has_labeled_line ''Company Operations'' blank_name_text
   \<and> parse_text blank_name_text =
       Inr [(''Company Name'', Some []),
            (''Company Phone'', Some ''555-1234''),
            (''Company Email'', None),
            (''Industry'', Some ''Tools''),
            (''Company Type'', Some ''LLC''),
            (''Import/Export Activities'', None),
            (''Company Country'', Some ''US''),
            (''Company Website'', None),
            (''Operations'', Some ''Makes anvils'')]"
  by code_simp

text \<open>
  Claim C1, amended. For every input text that contains all six mandatory labelled lines,
  \<open>parse_text\<close> returns a record, and every mandatory field of the record is a string:
  the text captured by the first match of the field's pattern with the whitespace at its
  two ends removed. The field is non-empty exactly when the captured text has a
  character that is not whitespace.
\<close>

theorem parse_text_labeled_lines:
  assumes "\<forall>l \<in> set mandatory_labels. has_labeled_line l inp"
  shows "\<exists>r. parse_text inp = Inr r \<and>
     (\<forall>(k, d, lit) \<in> set mandatory_fields.
        \<exists>g. re_search d lit inp = Some g \<and> map_of r k = Some (Some (strip g)) \<and>
            (strip g \<noteq> [] \<longleftrightarrow> (\<exists>c \<in> set g. \<not> isspace c)))"
proof -
  from labeled_lines_search[OF assms] obtain gn gp gi gt gc go where
    "re_search False ''Company Name: '' inp = Some gn"
    "re_search False ''Company Phone: '' inp = Some gp"
    "re_search False ''Industry: '' inp = Some gi"
    "re_search False ''Company Type: '' inp = Some gt"
    "re_search False ''Company Country: '' inp = Some gc"
    "re_search True ''Company Operations: '' inp = Some go"
    by (auto simp: mandatory_fields_def)
  from parse_text_success[OF this] obtain r where r: "parse_text inp = Inr r" by blast
  from parse_text_mandatory[OF r] have
    "\<forall>(k, d, lit) \<in> set mandatory_fields.
        \<exists>g. re_search d lit inp = Some g \<and> map_of r k = Some (Some (strip g)) \<and>
            (strip g \<noteq> [] \<longleftrightarrow> (\<exists>c \<in> set g. \<not> isspace c))"
    using strip_nonempty_iff by fastforce
  with r show ?thesis by blast
qed

theorem parse_text_labeled_lines_witness:
  "list_all (\<lambda>l. has_labeled_line l acme_text) mandatory_labels \<and>
   (\<exists>r. parse_text acme_text = Inr r \<and>
     (\<forall>(k, d, lit) \<in> set mandatory_fields.
        \<exists>g. re_search d lit acme_text = Some g \<and> map_of r k = Some (Some (strip g)) \<and>
            (strip g \<noteq> [] \<longleftrightarrow> (\<exists>c \<in> set g. \<not> isspace c))))"
proof -
  have h: "\<forall>l \<in> set mandatory_labels. has_labeled_line l acme_text"
    by code_simp
  from parse_text_labeled_lines[OF h] h show ?thesis
    unfolding list_all_iff by (rule conjI[rotated])
qed


text \<open>
  Claim C5, as stated: the value stored for a mandatory field is the remainder of the
  matched line after the label and the colon, and for Operations everything from after
  the label to the end of the input text. In \<open>padded_text\<close> the remainder of the
  Company Name line is \<^verbatim>\<open>Acme\<close> followed by a space and the text after the Operations
  label ends with a newline; the stored values have neither.
\<close>

theorem parse_text_unstripped_counterexample:
  "re_search False ''Company Name: '' padded_text = Some ''Acme ''
   \<and> re_search True ''Company Operations: '' padded_text
       = Some ''Makes anvils\<newline>and hammers\<newline>''
   \<and> parse_text padded_text =
       Inr [(''Company Name'', Some ''Acme''),
            (''Company Phone'', Some ''555-1234''),
            (''Company Email'', None),
            (''Industry'', Some ''Tools''),
            (''Company Type'', Some ''LLC''),
            (''Import/Export Activities'', None),
            (''Company Country'', Some ''US''),
            (''Company Website'', None),
            (''Operations'', Some ''Makes anvils\<newline>and hammers'')]"
  by code_simp

text \<open>
  Claim C5, amended. When \<open>parse_text\<close> returns a record, the input text splits, for every
  mandatory field, into a part before the label, the label with its colon and space, a
  non-empty captured text \<open>v\<close> and a part after it, and the stored value is \<open>v\<close> with
  the whitespace at its two ends removed. For Operations (the field read with
  \<^verbatim>\<open>re.DOTALL\<close>) \<open>v\<close> reaches the end of the input text, newlines included; for every
  other mandatory field \<open>v\<close> has no newline and is followed by a newline or by the end of the
  text, so it is the remainder of its line.
\<close>

theorem parse_text_values:
  assumes "parse_text inp = Inr r"
  shows "\<forall>(k, d, lit) \<in> set mandatory_fields.
     \<exists>pre v post. inp = pre @ lit @ v @ post \<and> v \<noteq> [] \<and>
        map_of r k = Some (Some (strip v)) \<and>
        (if d then post = []
         else newline \<notin> set v \<and> (post = [] \<or> (\<exists>p. post = newline # p)))"
proof (clarify)
  fix k d lit
  assume "(k, d, lit) \<in> set mandatory_fields"
  with parse_text_mandatory[OF assms] obtain g where
    g: "re_search d lit inp = Some g" "map_of r k = Some (Some (strip g))"
    by fast
  from re_search_value[OF g(1)] obtain pre post where
    "inp = pre @ lit @ g @ post \<and> g \<noteq> [] \<and>
     (if d then post = []
      else newline \<notin> set g \<and> (post = [] \<or> (\<exists>p. post = newline # p)))"
    by blast
  with g(2) have "inp = pre @ lit @ g @ post \<and> g \<noteq> [] \<and>
        map_of r k = Some (Some (strip g)) \<and>
        (if d then post = []
         else newline \<notin> set g \<and> (post = [] \<or> (\<exists>p. post = newline # p)))"
    by simp
  then show "\<exists>pre v post. inp = pre @ lit @ v @ post \<and> v \<noteq> [] \<and>
        map_of r k = Some (Some (strip v)) \<and>
        (if d then post = []
         else newline \<notin> set v \<and> (post = [] \<or> (\<exists>p. post = newline # p)))"
    by (rule_tac x = pre in exI, rule_tac x = g in exI, rule_tac x = post in exI)
qed

theorem parse_text_values_witness:
  "\<exists>r. parse_text padded_text = Inr r
   \<and> (\<forall>(k, d, lit) \<in> set mandatory_fields.
     \<exists>pre v post. padded_text = pre @ lit @ v @ post \<and> v \<noteq> [] \<and>
        map_of r k = Some (Some (strip v)) \<and>
        (if d then post = []
         else newline \<notin> set v \<and> (post = [] \<or> (\<exists>p. post = newline # p))))"
proof -
  have h: "parse_text padded_text =
       Inr [(''Company Name'', Some ''Acme''),
            (''Company Phone'', Some ''555-1234''),
            (''Company Email'', None),
            (''Industry'', Some ''Tools''),
            (''Company Type'', Some ''LLC''),
            (''Import/Export Activities'', None),
            (''Company Country'', Some ''US''),
            (''Company Website'', None),
            (''Operations'', Some ''Makes anvils\<newline>and hammers'')]"
    by code_simp
  from h parse_text_values[OF h] show ?thesis by (intro exI conjI)
qed

text \<open>
  Claim C9, as stated: if the label followed by a colon and a space occurs anywhere, the
  extractor uses the first such occurrence and takes the value from there, ignoring later
  ones. \<open>empty_first_text\<close> starts with \<^verbatim>\<open>Company Name: \<close> followed at once by a newline:
  the group \<^verbatim>\<open>(.+)\<close> cannot match there, the search moves on, and the value is taken
  from the second occurrence. The same holds for an optional field.
\<close>

theorem first_occurrence_counterexample:
  "prefix ''Company Name: '' empty_first_text
   \<and> parse_text empty_first_text =
       Inr [(''Company Name'', Some ''Acme''),
            (''Company Phone'', Some ''555-1234''),
            (''Company Email'', None),
            (''Industry'', Some ''Tools''),
            (''Company Type'', Some ''LLC''),
            (''Import/Export Activities'', None),
            (''Company Country'', Some ''US''),
            (''Company Website'', None),
            (''Operations'', Some ''Makes anvils'')]
   \<and> extract_optional_field ''Company Email: ''
        ''Company Email: \<newline>Company Email: info@acme.example'' = Some ''info@acme.example''"
  by code_simp

text \<open>
  Claim C9, amended. Matching is by occurrence anywhere in the text, not anchored to line
  starts, and the first match wins: when the literal of a pattern occurs after a prefix
  \<open>pre\<close> of the text (of any shape, so also in the middle of a line), what follows it
  gives the group one character at least (a character other than the newline, or any
  character for Operations), and the pattern matches at no earlier position, then the
  search returns what the group captures there, \<^verbatim>\<open>extract_optional_field\<close> returns
  it stripped, and in every record that \<open>parse_text\<close> returns the field of that pattern
  has it stripped as its value, whatever occurs later in the text.
\<close>

theorem first_match_wins:
  assumes "inp = pre @ lit @ rest" and "dot_plus d rest \<noteq> []"
    and "\<forall>n < length pre. match_at d lit (drop n inp) = None"
  shows "re_search d lit inp = Some (dot_plus d rest)
     \<and> (\<not> d \<longrightarrow> extract_optional_field lit inp = Some (strip (dot_plus d rest)))
     \<and> (\<forall>k r. (k, d, lit) \<in> set (mandatory_fields @ optional_fields)
              \<and> parse_text inp = Inr r
           \<longrightarrow> map_of r k = Some (Some (strip (dot_plus d rest))))"
proof -
  have s: "re_search d lit inp = Some (dot_plus d rest)"
    using re_search_first[OF assms(1,2) earlier_positions[OF assms(3)]] .
  have o: "\<not> d \<longrightarrow> extract_optional_field lit inp = Some (strip (dot_plus d rest))"
    using s by (cases d) (simp_all add: extract_optional_field_def)
  have p: "\<forall>k r. (k, d, lit) \<in> set (mandatory_fields @ optional_fields)
              \<and> parse_text inp = Inr r
           \<longrightarrow> map_of r k = Some (Some (strip (dot_plus d rest)))"
  proof (intro allI impI)
    fix k r
    assume a: "(k, d, lit) \<in> set (mandatory_fields @ optional_fields) \<and> parse_text inp = Inr r"
    then have r: "parse_text inp = Inr r" by simp
    from a consider "(k, d, lit) \<in> set mandatory_fields" | "(k, d, lit) \<in> set optional_fields"
      by auto
    then show "map_of r k = Some (Some (strip (dot_plus d rest)))"
    proof cases
      case 1
      from bspec[OF parse_text_mandatory[OF r] 1] obtain g where
        "re_search d lit inp = Some g" "map_of r k = Some (Some (strip g))"
        by auto
      with s show ?thesis by simp
    next
      case 2
      from bspec[OF parse_text_optional[OF r] 2] have "d = False"
        "map_of r k = Some (extract_optional_field lit inp)" by auto
      with o show ?thesis by simp
    qed
  qed
  from s o p show ?thesis by blast
qed


theorem first_match_wins_witness:
  "midline_text = ''Re: X'' @ ''Company Name: '' @ midline_rest
   \<and> dot_plus False midline_rest \<noteq> []
   \<and> list_all (\<lambda>n. match_at False ''Company Name: '' (drop n midline_text) = None)
        [0..<length ''Re: X'']
   \<and> re_search False ''Company Name: '' midline_text = Some ''Acme Ltd''
   \<and> extract_optional_field ''Company Name: '' midline_text = Some ''Acme Ltd''
   \<and> (\<exists>r. parse_text midline_text = Inr r
          \<and> map_of r ''Company Name'' = Some (Some ''Acme Ltd''))"
proof -
  have h1: "midline_text = ''Re: X'' @ ''Company Name: '' @ midline_rest"
    by (simp add: midline_text_def)
  have h2: "dot_plus False midline_rest \<noteq> []"
    by code_simp
  have l: "list_all (\<lambda>n. match_at False ''Company Name: '' (drop n midline_text) = None)
        [0..<length ''Re: X'']"
    by code_simp
  have h3: "\<forall>n < length ''Re: X''.
      match_at False ''Company Name: '' (drop n midline_text) = None"
  proof (intro allI impI)
    fix n :: nat assume "n < length ''Re: X''"
    then have "n \<in> set [0..<length ''Re: X'']"
      unfolding set_upt atLeastLessThan_iff by (rule conjI[OF le0])
    with l[unfolded list_all_iff]
    show "match_at False ''Company Name: '' (drop n midline_text) = None"
      by (rule bspec)
  qed
  have d: "dot_plus False midline_rest = ''Acme Ltd''"
    by code_simp
  have s: "strip ''Acme Ltd'' = ''Acme Ltd''"
    by code_simp
  have "parse_text midline_text =
       Inr [(''Company Name'', Some ''Acme Ltd''),
            (''Company Phone'', Some ''555-1234''),
            (''Company Email'', None),
            (''Industry'', Some ''Tools''),
            (''Company Type'', Some ''LLC''),
            (''Import/Export Activities'', None),
            (''Company Country'', Some ''US''),
            (''Company Website'', None),
            (''Operations'', Some ''Makes anvils'')]"
    by code_simp
  then obtain r where r: "parse_text midline_text = Inr r" by blast
  have m: "(''Company Name'', False, ''Company Name: '') \<in> set (mandatory_fields @ optional_fields)"
    by (simp add: mandatory_fields_def)
  from first_match_wins[OF h1 h2 h3] have
    w: "re_search False ''Company Name: '' midline_text = Some (dot_plus False midline_rest)"
       "extract_optional_field ''Company Name: '' midline_text
          = Some (strip (dot_plus False midline_rest))"
       "\<forall>k r. (k, False, ''Company Name: '') \<in> set (mandatory_fields @ optional_fields)
              \<and> parse_text midline_text = Inr r
           \<longrightarrow> map_of r k = Some (Some (strip (dot_plus False midline_rest)))"
    by simp_all
  from w(3) m r have "map_of r ''Company Name'' = Some (Some (strip (dot_plus False midline_rest)))"
    by blast
  with r have "\<exists>r. parse_text midline_text = Inr r
          \<and> map_of r ''Company Name'' = Some (Some ''Acme Ltd'')"
    unfolding d s by blast
  then show ?thesis using h1 h2 l w(1,2) unfolding d s by (intro conjI)
qed

section \<open>Claims about the sheet store\<close>

text \<open>
  In the theorems below a sheet is a path of the file system that holds a spreadsheet,
  \<open>files p = Some (Sheet df)\<close>, and the Company Name of a row is its cell under the column
  \<^verbatim>\<open>Company Name\<close>.
\<close>

text \<open>
  Claim C3. For every sheet and every record whose Company Name is equal to the Company
  Name of some existing row, \<open>add_to_excel\<close> returns \<open>Duplicate\<close> and the file system is
  the one before the call: nothing is written, so the row count and every cell of the
  sheet are unchanged.
\<close>

theorem add_to_excel_duplicate:
  assumes "files p = Some (Sheet df)"
    and "map_of cd ''Company Name'' = Some (Some name)"
    and "row \<in> set (rows df)"
    and "cell_at (columns df) row ''Company Name'' = Str name"
  shows "add_to_excel files p cd = (Duplicate, files)"
proof -
  from assms(4) have c: "''Company Name'' \<in> set (columns df)"
    using cell_at_present[of "columns df" row "''Company Name''"] by simp
  from assms(3,4) have
    "\<exists>row \<in> set (rows df). cell_at (columns df) row ''Company Name'' = Str name"
    by blast
  with assms(1) c assms(2) show ?thesis by (rule add_to_excel_found)
qed


theorem add_to_excel_duplicate_witness:
  "notes_files ''companies.xlsx'' = Some (Sheet notes_sheet)
   \<and> map_of acme_record ''Company Name'' = Some (Some ''Acme'')
   \<and> [Str ''first'', Str ''Acme''] \<in> set (rows notes_sheet)
   \<and> cell_at (columns notes_sheet) [Str ''first'', Str ''Acme''] ''Company Name'' = Str ''Acme''
   \<and> add_to_excel notes_files ''companies.xlsx'' acme_record = (Duplicate, notes_files)"
proof -
  have h1: "notes_files ''companies.xlsx'' = Some (Sheet notes_sheet)"
    by (simp add: notes_files_def)
  have h2: "map_of acme_record ''Company Name'' = Some (Some ''Acme'')"
    by (simp add: acme_record_def)
  have h3: "[Str ''first'', Str ''Acme''] \<in> set (rows notes_sheet)"
    by (simp add: notes_sheet_def)
  have h4: "cell_at (columns notes_sheet) [Str ''first'', Str ''Acme''] ''Company Name''
              = Str ''Acme''"
    by (simp add: notes_sheet_def cell_at_def)
  from add_to_excel_duplicate[where files = notes_files and p = "''companies.xlsx''"
         and df = notes_sheet and cd = acme_record and name = "''Acme''"
         and row = "[Str ''first'', Str ''Acme'']", OF h1 h2 h3 h4] h1 h2 h3 h4 show ?thesis by (intro conjI)
qed







text \<open>
  On \<open>notes_files\<close>, which holds the company \<^verbatim>\<open>Acme\<close>: the same name is a duplicate,
  \<^verbatim>\<open>acme\<close> and \<^verbatim>\<open>Acme\<close> followed by a space are inserted.
\<close>

lemma add_to_excel_case_and_space:
  "fst (add_to_excel notes_files ''companies.xlsx'' acme_record) = Duplicate
   \<and> fst (add_to_excel notes_files ''companies.xlsx'' lower_record) = Inserted
   \<and> fst (add_to_excel notes_files ''companies.xlsx'' spaced_record) = Inserted"
  by code_simp

text \<open>
  Claim C7. \<open>ensure_columns_exist\<close> is idempotent: for every file system and path, running
  it a second time on the result of the first run gives the same result, the same table
  and so the same column set, whether the path held no file, an unreadable file or a
  sheet.
\<close>

theorem ensure_columns_exist_idempotent:
  "ensure_columns_exist (snd (ensure_columns_exist files p)) p = ensure_columns_exist files p"
proof (cases "files p")
  case None
  have "add_missing_columns required_columns \<lparr>columns = required_columns, rows = []\<rparr>
        = \<lparr>columns = required_columns, rows = []\<rparr>"
    by (rule add_missing_noop) simp
  then show ?thesis
    using ensure_sheet[of "files(p \<mapsto> Sheet \<lparr>columns = required_columns, rows = []\<rparr>)" p
            "\<lparr>columns = required_columns, rows = []\<rparr>"]
    using None by (simp add: ensure_missing[of files p])
next
  case (Some f)
  show ?thesis
  proof (cases f)
    case Corrupt
    with Some show ?thesis by (simp add: ensure_corrupt)
  next
    case (Sheet df)
    let ?df = "add_missing_columns required_columns df"
    have "add_missing_columns required_columns ?df = ?df"
      by (rule add_missing_noop) (rule required_present)
    then show ?thesis
      using Some Sheet ensure_sheet[of "files(p \<mapsto> Sheet ?df)" p ?df]
      by (simp add: ensure_sheet[of files p df])
  qed
qed

theorem ensure_columns_exist_idempotent_witness:
  "ensure_columns_exist (snd (ensure_columns_exist notes_files ''companies.xlsx''))
     ''companies.xlsx''
   = ensure_columns_exist notes_files ''companies.xlsx''"
  using ensure_columns_exist_idempotent[of notes_files "''companies.xlsx''"] .

text \<open>
  Claim C6. On an existing table \<open>ensure_columns_exist\<close> adds every missing required
  column, after the columns that are there, with a missing value in every existing row,
  and changes nothing else: the pre-existing columns stay, and every row keeps its cells
  and gets one missing value for each added column, so that in a well-formed table the
  cell of a row under a pre-existing column is the one it was and the cell under any
  other column is missing. On a path without a file it creates a table without rows
  whose columns are the required columns, nine distinct names.
\<close>

theorem ensure_columns_exist_frame:
  "ensure_columns_exist (files(p \<mapsto> Sheet df)) p
     = (None, files(p \<mapsto> Sheet
          \<lparr>columns = columns df @ filter (\<lambda>c. c \<notin> set (columns df)) required_columns,
           rows = map (\<lambda>r. r @ replicate
                         (length (filter (\<lambda>c. c \<notin> set (columns df)) required_columns)) Null)
                    (rows df)\<rparr>))
   \<and> (wf_df df \<longrightarrow>
        (\<forall>r \<in> set (rows df). \<forall>c.
           cell_at (columns df @ filter (\<lambda>c. c \<notin> set (columns df)) required_columns)
             (r @ replicate
                    (length (filter (\<lambda>c. c \<notin> set (columns df)) required_columns)) Null) c
           = (if c \<in> set (columns df) then cell_at (columns df) r c else Null)))
   \<and> ensure_columns_exist (files(p := None)) p
     = (None, files(p \<mapsto> Sheet \<lparr>columns = required_columns, rows = []\<rparr>))
   \<and> length required_columns = 9 \<and> distinct required_columns"
proof (intro conjI impI ballI allI)
  show "ensure_columns_exist (files(p \<mapsto> Sheet df)) p
     = (None, files(p \<mapsto> Sheet
          \<lparr>columns = columns df @ filter (\<lambda>c. c \<notin> set (columns df)) required_columns,
           rows = map (\<lambda>r. r @ replicate
                         (length (filter (\<lambda>c. c \<notin> set (columns df)) required_columns)) Null)
                    (rows df)\<rparr>))"
    using ensure_sheet[of "files(p \<mapsto> Sheet df)" p df]
      add_missing_columns_eq[OF distinct_required_columns, of df]
    by simp
next
  fix r c assume "wf_df df" and "r \<in> set (rows df)"
  then have "distinct (columns df)" and "length r = length (columns df)"
    by (auto simp: wf_df_def list_all_iff)
  then show "cell_at (columns df @ filter (\<lambda>c. c \<notin> set (columns df)) required_columns)
             (r @ replicate
                    (length (filter (\<lambda>c. c \<notin> set (columns df)) required_columns)) Null) c
           = (if c \<in> set (columns df) then cell_at (columns df) r c else Null)"
    by (rule cell_at_padded)
next
  show "ensure_columns_exist (files(p := None)) p
     = (None, files(p \<mapsto> Sheet \<lparr>columns = required_columns, rows = []\<rparr>))"
    using ensure_missing[of "files(p := None)" p] by simp
next
  show "length required_columns = 9" by (simp add: required_columns_def)
next
  show "distinct required_columns" by (rule distinct_required_columns)
qed

theorem ensure_columns_exist_frame_witness:
  "ensure_columns_exist notes_files ''companies.xlsx''
     = (None, notes_files(''companies.xlsx'' \<mapsto> Sheet
          \<lparr>columns = [''Notes'', ''Company Name'', ''Company Phone'', ''Company Email'',
                      ''Industry'', ''Company Type'', ''Import/Export Activities'',
                      ''Company Country'', ''Company Website'', ''Operations''],
           rows = [[Str ''first'', Str ''Acme'', Null, Null, Null, Null, Null, Null, Null,
                    Null]]\<rparr>))"
proof -
  have n: "notes_files = Map.empty(''companies.xlsx'' \<mapsto> Sheet notes_sheet)"
    by (rule notes_files_def)
  have f: "filter (\<lambda>c. c \<notin> set (columns notes_sheet)) required_columns
           = [''Company Phone'', ''Company Email'', ''Industry'', ''Company Type'',
              ''Import/Export Activities'', ''Company Country'', ''Company Website'',
              ''Operations'']"
    by (simp add: notes_sheet_def required_columns_def)
  from ensure_columns_exist_frame[of Map.empty "''companies.xlsx''" notes_sheet,
         THEN conjunct1]
  have "ensure_columns_exist notes_files ''companies.xlsx''
     = (None, notes_files(''companies.xlsx'' \<mapsto> Sheet
          \<lparr>columns = columns notes_sheet
                      @ filter (\<lambda>c. c \<notin> set (columns notes_sheet)) required_columns,
           rows = map (\<lambda>r. r @ replicate
                   (length (filter (\<lambda>c. c \<notin> set (columns notes_sheet)) required_columns)) Null)
                    (rows notes_sheet)\<rparr>))"
    unfolding n by simp
  then show ?thesis unfolding f by (simp add: notes_sheet_def numeral_eq_Suc)
qed

text \<open>
  Claim C8, as stated: the header of every table that \<open>ensure_columns_exist\<close> produces is
  the nine required names in their fixed order, followed by any pre-existing columns. On
  \<open>notes_files\<close> the pre-existing columns \<^verbatim>\<open>Notes\<close> and \<^verbatim>\<open>Company Name\<close> stay in front
  and the missing required columns follow them: the header does not start with the
  required names.
\<close>

theorem ensure_columns_exist_header_counterexample:
  "snd (ensure_columns_exist notes_files ''companies.xlsx'') ''companies.xlsx''
     = Some (Sheet
          \<lparr>columns = [''Notes'', ''Company Name'', ''Company Phone'', ''Company Email'',
                      ''Industry'', ''Company Type'', ''Import/Export Activities'',
                      ''Company Country'', ''Company Website'', ''Operations''],
           rows = [[Str ''first'', Str ''Acme'', Null, Null, Null, Null, Null, Null, Null,
                    Null]]\<rparr>)
   \<and> \<not> prefix required_columns
          [''Notes'', ''Company Name'', ''Company Phone'', ''Company Email'',
           ''Industry'', ''Company Type'', ''Import/Export Activities'',
           ''Company Country'', ''Company Website'', ''Operations'']"
  by code_simp

text \<open>
  Claim C8, amended. The header of a table that \<open>ensure_columns_exist\<close> produces from an
  existing sheet is the pre-existing columns in their order, followed by those of the
  required names Company Name, Company Phone, Company Email, Industry, Company Type,
  Import/Export Activities, Company Country, Company Website, Operations that the sheet
  lacked, in this order. The header of a table created for a path without a file is these
  nine names in this order.
\<close>

theorem ensure_columns_exist_header:
  "(\<exists>df'. snd (ensure_columns_exist (files(p \<mapsto> Sheet df)) p) p = Some (Sheet df')
       \<and> columns df' = columns df @ filter (\<lambda>c. c \<notin> set (columns df))
            [''Company Name'', ''Company Phone'', ''Company Email'',
             ''Industry'', ''Company Type'', ''Import/Export Activities'',
             ''Company Country'', ''Company Website'', ''Operations''])
   \<and> (\<exists>df'. snd (ensure_columns_exist (files(p := None)) p) p = Some (Sheet df')
       \<and> columns df' =
            [''Company Name'', ''Company Phone'', ''Company Email'',
             ''Industry'', ''Company Type'', ''Import/Export Activities'',
             ''Company Country'', ''Company Website'', ''Operations''])"
proof -
  let ?df = "add_missing_columns required_columns df"
  have "snd (ensure_columns_exist (files(p \<mapsto> Sheet df)) p) p = Some (Sheet ?df)"
    using ensure_sheet[of "files(p \<mapsto> Sheet df)" p df] by simp
  moreover have "columns ?df = columns df @ filter (\<lambda>c. c \<notin> set (columns df)) required_columns"
    by (subst add_missing_columns_eq[OF distinct_required_columns]) simp
  ultimately have a: "\<exists>df'. snd (ensure_columns_exist (files(p \<mapsto> Sheet df)) p) p
        = Some (Sheet df')
       \<and> columns df' = columns df @ filter (\<lambda>c. c \<notin> set (columns df)) required_columns"
    by blast
  have "snd (ensure_columns_exist (files(p := None)) p) p
          = Some (Sheet \<lparr>columns = required_columns, rows = []\<rparr>)"
    using ensure_missing[of "files(p := None)" p] by simp
  then have b: "\<exists>df'. snd (ensure_columns_exist (files(p := None)) p) p = Some (Sheet df')
       \<and> columns df' = required_columns"
    by simp
  from a b show ?thesis unfolding required_columns_def by (rule conjI)
qed

theorem ensure_columns_exist_header_witness:
  "\<exists>df'. snd (ensure_columns_exist notes_files ''companies.xlsx'') ''companies.xlsx''
            = Some (Sheet df')
     \<and> columns df' =
          [''Notes'', ''Company Name'', ''Company Phone'', ''Company Email'',
           ''Industry'', ''Company Type'', ''Import/Export Activities'',
           ''Company Country'', ''Company Website'', ''Operations'']"
proof -
  from ensure_columns_exist_header[of Map.empty "''companies.xlsx''" notes_sheet]
  have "\<exists>df'. snd (ensure_columns_exist (Map.empty(''companies.xlsx'' \<mapsto> Sheet notes_sheet))
                     ''companies.xlsx'') ''companies.xlsx'' = Some (Sheet df')
       \<and> columns df' = columns notes_sheet @ filter (\<lambda>c. c \<notin> set (columns notes_sheet))
            [''Company Name'', ''Company Phone'', ''Company Email'',
             ''Industry'', ''Company Type'', ''Import/Export Activities'',
             ''Company Country'', ''Company Website'', ''Operations'']"
    by (rule conjunct1)
  then show ?thesis unfolding notes_files_def by (simp add: notes_sheet_def)
qed

end
